theory Spec2Isabelle
  imports Complex_Main "HOL-Library.AList" "HOL-Library.Sublist"
begin

section \<open>Data model\<close>

text \<open>
  Python values that occur as dictionary values in the modelled code, with Python's
  truth value test (\<^verbatim>\<open>bool(v)\<close>).
\<close>

datatype pyval = PNone | PBool bool | PInt int | PStr string

fun truthy :: "pyval \<Rightarrow> bool" where
  "truthy PNone = False"
| "truthy (PBool b) = b"
| "truthy (PInt n) = (n \<noteq> 0)"
| "truthy (PStr s) = (s \<noteq> [])"

text \<open>
  A Python \<^verbatim>\<open>dict\<close> is an association list in insertion order with distinct keys:
  \<^verbatim>\<open>d[k] = v\<close> is \<^const>\<open>AList.update\<close> (in place for a known key, appended otherwise),
  \<^verbatim>\<open>del d[k]\<close> is \<^const>\<open>AList.delete\<close>, \<^verbatim>\<open>k in d\<close> is membership in the keys and
  \<^verbatim>\<open>d.get(k, dflt)\<close> is \<open>dict_get\<close>.
\<close>

definition dict_has :: "('k \<times> 'v) list \<Rightarrow> 'k \<Rightarrow> bool" where
  "dict_has d k = (k \<in> set (map fst d))"

definition dict_get :: "('k \<times> 'v) list \<Rightarrow> 'k \<Rightarrow> 'v \<Rightarrow> 'v" where
  "dict_get d k dflt = (case map_of d k of None \<Rightarrow> dflt | Some v \<Rightarrow> v)"

text \<open>
  A task is a dictionary. The keys the scheduler and the device adapters read are fields
  of the record, each optional because the dictionary may lack the key; every other key
  (description, parameters, ...) is kept in \<open>other_keys\<close>. Quantities of resources are exact
  rationals.
\<close>

record task =
  task_id :: "string option"
  required_capabilities :: "string list option"
  required_resources :: "(string \<times> rat) list option"
  other_keys :: "(string \<times> pyval) list"

text \<open>Python's \<^verbatim>\<open>not task\<close>: a dictionary is falsy iff it has no key.\<close>

definition task_falsy :: "task \<Rightarrow> bool" where
  "task_falsy t = (task_id t = None \<and> required_capabilities t = None
     \<and> required_resources t = None \<and> other_keys t = [])"

text \<open>What a call of an external collaborator does: return true, return false, or raise.\<close>

datatype reply = Yes | No | Raises

section \<open>TaskManager (agent/core/task\_manager.py)\<close>

record task_manager =
  max_concurrent :: int
  priority_levels :: int
  task_queues :: "task list list"
  active_tasks :: "(string \<times> task) list"
  running :: bool

text \<open>
  \<^verbatim>\<open>__init__\<close>: \<^verbatim>\<open>[[] for _ in range(priority_levels)]\<close> makes no queue at all for a
  non-positive number of levels.
\<close>

definition TaskManager_init :: "int \<Rightarrow> int \<Rightarrow> task_manager" where
  "TaskManager_init mc pl =
     \<lparr>max_concurrent = mc, priority_levels = pl, task_queues = replicate (nat pl) [],
      active_tasks = [], running = False\<rparr>"

definition start :: "task_manager \<Rightarrow> task_manager \<times> bool" where
  "start s = (s\<lparr>running := True\<rparr>, True)"

text \<open>
  \<^verbatim>\<open>add_task\<close>: the priority is validated, then the task is appended to its queue. An
  index outside the list of queues raises IndexError inside the \<^verbatim>\<open>try\<close>, and the handler
  returns False.
\<close>

definition add_task :: "task_manager \<Rightarrow> task \<Rightarrow> int \<Rightarrow> task_manager \<times> bool" where
  "add_task s t p =
     (if p < 0 \<or> p \<ge> priority_levels s then (s, False)
      else if nat p < length (task_queues s)
        then (s\<lparr>task_queues := (task_queues s)[nat p := task_queues s ! nat p @ [t]]\<rparr>, True)
        else (s, False))"

text \<open>
  \<^verbatim>\<open>stop_task\<close>: the entry is deleted only when the device adapter's \<^verbatim>\<open>stop_task\<close> returns
  true; an exception of the adapter is caught and the result is False.
\<close>

definition stop_task :: "(string \<Rightarrow> reply) \<Rightarrow> task_manager \<Rightarrow> string \<Rightarrow> task_manager \<times> bool" where
  "stop_task adapter_stop s tid =
     (if dict_has (active_tasks s) tid then
        (case adapter_stop tid of
           Yes \<Rightarrow> (s\<lparr>active_tasks := AList.delete tid (active_tasks s)\<rparr>, True)
         | No \<Rightarrow> (s, False)
         | Raises \<Rightarrow> (s, False))
      else (s, False))"

text \<open>
  \<^verbatim>\<open>stop\<close>: the running flag is cleared; then, holding \<^verbatim>\<open>self.lock\<close>, \<^verbatim>\<open>stop_task\<close> is
  called for every active task. \<^verbatim>\<open>self.lock\<close> is a \<^verbatim>\<open>threading.Lock\<close>, which is not
  reentrant, and \<^verbatim>\<open>stop_task\<close> acquires it again: with an active task the first call
  blocks for ever, so \<^verbatim>\<open>stop\<close> does not return (result \<open>None\<close>) and the table is left
  as it was. With no active task it returns True.
\<close>

definition stop :: "task_manager \<Rightarrow> task_manager \<times> bool option" where
  "stop s =
     (let s1 = s\<lparr>running := False\<rparr>
      in if active_tasks s1 = [] then (s1, Some True) else (s1, None))"

section \<open>Device adapter (agent/device/desktop\_adapter.py)\<close>

text \<open>
  \<^verbatim>\<open>can_execute_task\<close>, the same in the desktop, mobile and IoT adapters: every required
  capability must have a truthy value in the adapter's capability dictionary
  (\<^verbatim>\<open>self.capabilities.get(capability, False)\<close>), and for every required resource the
  available quantity (\<^verbatim>\<open>available.get(resource, 0)\<close>) must not be below the required one.
  The available resources are a reading of the operating system taken at the call.
\<close>

definition can_execute_task :: "(string \<times> pyval) list \<Rightarrow> (string \<times> rat) list \<Rightarrow> task \<Rightarrow> bool" where
  "can_execute_task caps available t =
     (if list_ex (\<lambda>capability. \<not> truthy (dict_get caps capability (PBool False)))
           (case required_capabilities t of None \<Rightarrow> [] | Some cs \<Rightarrow> cs)
      then False
      else if list_ex (\<lambda>(resource, amount). dict_get available resource 0 < amount)
           (case required_resources t of None \<Rightarrow> [] | Some rs \<Rightarrow> rs)
      then False
      else True)"

section \<open>Scheduler loop and migration (agent/core/task\_manager.py)\<close>

text \<open>
  A record of the device directory (\<^verbatim>\<open>available_devices\<close> of the communication layer): a
  dictionary of which the code reads the keys \<^verbatim>\<open>capabilities\<close>, \<^verbatim>\<open>protocol\<close> and
  \<^verbatim>\<open>last_seen\<close>.
\<close>

record device_info =
  dev_capabilities :: "(string \<times> pyval) list option"
  dev_protocol :: "string option"
  dev_last_seen :: "rat option"
  dev_other :: "(string \<times> pyval) list"

text \<open>The task offer \<^verbatim>\<open>{'type': 'task', 'task': task, 'priority': priority}\<close>.\<close>

datatype message = TaskOffer task nat

text \<open>
  What the task manager reaches through \<^verbatim>\<open>self.agent_core\<close> during one pass of the scheduler:
  the device adapter (its capability dictionary, the reading of the available resources at
  the \<open>k\<close>-th call of \<^verbatim>\<open>can_execute_task\<close>, and what \<^verbatim>\<open>execute_task\<close> and \<^verbatim>\<open>stop_task\<close>
  answer) and the communication layer (the device directory in its order, and whether
  \<^verbatim>\<open>send_data\<close> to a device succeeds; \<^verbatim>\<open>send_data\<close> catches its own exceptions).
\<close>

record environment =
  adapter_capabilities :: "(string \<times> pyval) list"
  adapter_available :: "nat \<Rightarrow> (string \<times> rat) list"
  adapter_execute :: "task \<Rightarrow> reply"
  adapter_stop :: "string \<Rightarrow> reply"
  comm_devices :: "(string \<times> device_info) list"
  comm_send :: "string \<Rightarrow> message \<Rightarrow> bool"

text \<open>What one pass of the scheduler does, in order.\<close>

datatype event =
    Considered nat task
  | ExecuteCall task
  | Activated string task
  | MigrateCall task nat
  | SendCall string message bool

text \<open>
  The search \<^verbatim>\<open>for p, queue in enumerate(self.task_queues): if queue: ... break\<close>: the index
  of the first non-empty queue and its head.
\<close>

fun first_nonempty :: "'a list list \<Rightarrow> (nat \<times> 'a) option" where
  "first_nonempty [] = None"
| "first_nonempty ([] # qs) = map_option (\<lambda>(p, t). (Suc p, t)) (first_nonempty qs)"
| "first_nonempty ((t # q) # qs) = Some (0, t)"

text \<open>\<^verbatim>\<open>self.task_queues[priority].pop(0)\<close>; \<open>None\<close> is the IndexError.\<close>

definition pop_head :: "'a list list \<Rightarrow> nat \<Rightarrow> 'a list list option" where
  "pop_head qs p = (if p < length qs \<and> qs ! p \<noteq> [] then Some (qs[p := tl (qs ! p)]) else None)"

text \<open>
  The eligibility test of \<^verbatim>\<open>_try_migrate_task\<close>:
  \<^verbatim>\<open>all(cap in capabilities for cap in task.get('required_capabilities', []))\<close> with
  \<^verbatim>\<open>capabilities = device_info.get('capabilities', {})\<close>. It tests that the name is a key.
\<close>

definition device_eligible :: "device_info \<Rightarrow> task \<Rightarrow> bool" where
  "device_eligible info t =
     list_all (\<lambda>cap. dict_has (case dev_capabilities info of None \<Rightarrow> [] | Some c \<Rightarrow> c) cap)
       (case required_capabilities t of None \<Rightarrow> [] | Some cs \<Rightarrow> cs)"

text \<open>
  The loop of \<^verbatim>\<open>_try_migrate_task\<close> over the directory. The priority is the index the
  scheduler's \<^verbatim>\<open>enumerate\<close> gave, a natural number. The result is the queues, the sends
  made, and whether the pop raised (the exception leaves the function).
\<close>

fun try_migrate_devices ::
  "(string \<Rightarrow> message \<Rightarrow> bool) \<Rightarrow> task \<Rightarrow> nat \<Rightarrow> (string \<times> device_info) list
    \<Rightarrow> task list list \<Rightarrow> task list list \<times> event list \<times> bool" where
  "try_migrate_devices send t p [] qs = (qs, [], False)"
| "try_migrate_devices send t p ((device_id, info) # ds) qs =
     (if device_eligible info t then
        (if send device_id (TaskOffer t p) then
           (case pop_head qs p of
              Some qs' \<Rightarrow> (qs', [SendCall device_id (TaskOffer t p) True], False)
            | None \<Rightarrow> (qs, [SendCall device_id (TaskOffer t p) True], True))
         else (case try_migrate_devices send t p ds qs of
                 (qs', evs, raised) \<Rightarrow> (qs', SendCall device_id (TaskOffer t p) False # evs, raised)))
      else try_migrate_devices send t p ds qs)"

definition try_migrate_task ::
  "environment \<Rightarrow> task_manager \<Rightarrow> task \<Rightarrow> nat \<Rightarrow> task_manager \<times> event list \<times> bool" where
  "try_migrate_task env s t p =
     (case try_migrate_devices (comm_send env) t p (comm_devices env) (task_queues s) of
        (qs, evs, raised) \<Rightarrow> (s\<lparr>task_queues := qs\<rparr>, evs, raised))"

lemma first_nonempty_concat:
  "first_nonempty qs = Some (p, t) \<Longrightarrow>
     p < length qs \<and> qs ! p \<noteq> [] \<and> hd (qs ! p) = t \<and> concat qs = t # concat (qs[p := tl (qs ! p)])"
proof (induction qs arbitrary: p rule: first_nonempty.induct)
  case 1
  then show ?case by simp
next
  case (2 qs)
  then obtain p' where p': "first_nonempty qs = Some (p', t)" "p = Suc p'"
    by (auto split: prod.splits)
  from "2.IH" [OF p'(1)] p'(2) show ?case by simp
next
  case (3 t' q qs)
  then show ?case by simp
qed

text \<open>
  The body of the scheduler's \<^verbatim>\<open>with self.lock\<close> block: the loop
  \<^verbatim>\<open>while len(self.active_tasks) < self.max_concurrent\<close>. \<open>k\<close> counts the calls of
  \<^verbatim>\<open>can_execute_task\<close> made so far. Every exception (of \<^verbatim>\<open>execute_task\<close>, the KeyError of
  \<^verbatim>\<open>task['id']\<close>, one of the migration) is caught by the \<^verbatim>\<open>try\<close> around the block and ends
  the pass; a task popped before the exception is not put back.
\<close>

function scheduler_admit :: "environment \<Rightarrow> nat \<Rightarrow> task_manager \<Rightarrow> task_manager \<times> event list" where
  "scheduler_admit env k s =
     (if int (length (active_tasks s)) < max_concurrent s then
        (case first_nonempty (task_queues s) of
           None \<Rightarrow> (s, [])
         | Some (p, t) \<Rightarrow>
             if task_falsy t then (s, [Considered p t])
             else if can_execute_task (adapter_capabilities env) (adapter_available env k) t then
               (case adapter_execute env t of
                  Raises \<Rightarrow>
                    (s\<lparr>task_queues := (task_queues s)[p := tl (task_queues s ! p)]\<rparr>,
                     [Considered p t, ExecuteCall t])
                | No \<Rightarrow>
                    (case scheduler_admit env (Suc k)
                            (s\<lparr>task_queues := (task_queues s)[p := tl (task_queues s ! p)]\<rparr>) of
                       (s', evs) \<Rightarrow> (s', Considered p t # ExecuteCall t # evs))
                | Yes \<Rightarrow>
                    (case task_id t of
                       None \<Rightarrow>
                         (s\<lparr>task_queues := (task_queues s)[p := tl (task_queues s ! p)]\<rparr>,
                          [Considered p t, ExecuteCall t])
                     | Some i \<Rightarrow>
                         (case scheduler_admit env (Suc k)
                                 (s\<lparr>task_queues := (task_queues s)[p := tl (task_queues s ! p)],
                                    active_tasks := AList.update i t (active_tasks s)\<rparr>) of
                            (s', evs) \<Rightarrow>
                              (s', Considered p t # ExecuteCall t # Activated i t # evs))))
             else (case try_migrate_task env s t p of
                     (s', evs, raised) \<Rightarrow> (s', Considered p t # MigrateCall t p # evs)))
      else (s, []))"
  by pat_completeness auto
termination
proof (relation "measure (\<lambda>(env, k, s). length (concat (task_queues s)))")
  show "wf (measure (\<lambda>(env, k, s). length (concat (task_queues s))))" by simp
next
  fix env :: environment and k :: nat and s :: task_manager and x2 x y
  assume "first_nonempty (task_queues s) = Some x2" "(x, y) = x2"
  then have "first_nonempty (task_queues s) = Some (x, y)" by simp
  from first_nonempty_concat [OF this]
  have "length (concat (task_queues s)) = Suc (length (concat ((task_queues s)[x := tl (task_queues s ! x)])))"
    by (metis length_Cons)
  then show "((env, Suc k, s\<lparr>task_queues := (task_queues s)[x := tl (task_queues s ! x)]\<rparr>), env, k, s)
       \<in> measure (\<lambda>(env, k, s). length (concat (task_queues s)))"
    by simp
next
  fix env :: environment and k :: nat and s :: task_manager and x2 x y x2a
  assume "first_nonempty (task_queues s) = Some x2" "(x, y) = x2"
  then have "first_nonempty (task_queues s) = Some (x, y)" by simp
  from first_nonempty_concat [OF this]
  have "length (concat (task_queues s)) = Suc (length (concat ((task_queues s)[x := tl (task_queues s ! x)])))"
    by (metis length_Cons)
  then show "((env, Suc k, s\<lparr>task_queues := (task_queues s)[x := tl (task_queues s ! x)],
                active_tasks := AList.update x2a y (active_tasks s)\<rparr>), env, k, s)
       \<in> measure (\<lambda>(env, k, s). length (concat (task_queues s)))"
    by simp
qed

text \<open>
  One pass of \<^verbatim>\<open>_scheduler_loop\<close>: the body runs only while \<^verbatim>\<open>self.running\<close> holds.
\<close>

definition scheduler_loop_pass :: "environment \<Rightarrow> task_manager \<Rightarrow> task_manager \<times> event list" where
  "scheduler_loop_pass env s = (if running s then scheduler_admit env 0 s else (s, []))"

declare scheduler_admit.simps [simp del]

text \<open>The state after \<^verbatim>\<open>self.task_queues[p].pop(0)\<close> on a non-empty queue \<open>p\<close>.\<close>

definition pop_queue :: "task_manager \<Rightarrow> nat \<Rightarrow> task_manager" where
  "pop_queue s p = s\<lparr>task_queues := (task_queues s)[p := tl (task_queues s ! p)]\<rparr>"


text \<open>
  The operations on a task manager, and a sequence of them run by one caller. The run
  lists the states it goes through; it ends where a call does not return.
\<close>

datatype operation =
    Start
  | Submit task int
  | Pass environment
  | Cancel environment string
  | Stop

fun apply_operation :: "operation \<Rightarrow> task_manager \<Rightarrow> task_manager \<times> bool" where
  "apply_operation Start s = (fst (start s), True)"
| "apply_operation (Submit t p) s = (fst (add_task s t p), True)"
| "apply_operation (Pass env) s = (fst (scheduler_loop_pass env s), True)"
| "apply_operation (Cancel env tid) s = (fst (stop_task (adapter_stop env) s tid), True)"
| "apply_operation Stop s = (fst (stop s), snd (stop s) \<noteq> None)"

fun run :: "operation list \<Rightarrow> task_manager \<Rightarrow> task_manager list" where
  "run [] s = [s]"
| "run (a # ops) s =
     s # (if snd (apply_operation a s) then run ops (fst (apply_operation a s))
          else [fst (apply_operation a s)])"

text \<open>
  The bound on the active task table. The table is a dictionary, so its keys are distinct
  and \<^verbatim>\<open>len(self.active_tasks)\<close> is the length of the list.
\<close>

definition active_bounded :: "task_manager \<Rightarrow> bool" where
  "active_bounded s =
     (distinct (map fst (active_tasks s)) \<and> int (length (active_tasks s)) \<le> max_concurrent s)"

text \<open>The tasks a pass selected as head of a queue, and those it handed to \<^verbatim>\<open>execute_task\<close>.\<close>

fun considered :: "event list \<Rightarrow> task list" where
  "considered [] = []"
| "considered (Considered p t # evs) = t # considered evs"
| "considered (e # evs) = considered evs"

fun dispatched :: "event list \<Rightarrow> task list" where
  "dispatched [] = []"
| "dispatched (ExecuteCall t # evs) = t # dispatched evs"
| "dispatched (e # evs) = dispatched evs"

text \<open>The calls of the migration step and the sends a pass made, in order.\<close>

fun migrations :: "event list \<Rightarrow> (task \<times> nat) list" where
  "migrations [] = []"
| "migrations (MigrateCall t p # evs) = (t, p) # migrations evs"
| "migrations (e # evs) = migrations evs"

fun sends :: "event list \<Rightarrow> (string \<times> message \<times> bool) list" where
  "sends [] = []"
| "sends (SendCall d m b # evs) = (d, m, b) # sends evs"
| "sends (e # evs) = sends evs"

text \<open>The queues of a manager are those its constructor made: one per priority level.\<close>

definition queues_wf :: "task_manager \<Rightarrow> bool" where
  "queues_wf s = (length (task_queues s) = nat (priority_levels s))"

section \<open>SecurityManager (utils/security.py)\<close>

datatype py_error = TypeError | KeyError | AttributeError

text \<open>
  The dictionary handed to \<^verbatim>\<open>generate_token\<close>, \<^verbatim>\<open>verify_token\<close> and \<^verbatim>\<open>receive_data\<close>: the keys
  the code reads are \<^verbatim>\<open>id\<close> (as the text the f-string puts into the message),
  \<^verbatim>\<open>signature\<close> and \<^verbatim>\<open>data\<close>.
\<close>

record signed_data =
  data_id :: "string option"
  data_signature :: "string option"
  data_payload :: "string option"

text \<open>
  \<^verbatim>\<open>generate_token\<close>: the message is \<^verbatim>\<open>f"{data.get('id', '')}:{time.time()}"\<close>, and the token
  is the hexadecimal HMAC-SHA256 digest of the message under the encryption key. The clock
  is read inside the function; \<open>now\<close> is the text of that reading (the \<^verbatim>\<open>repr\<close> of the
  float, in which distinct readings have distinct texts). The digest function of Python's
  library is the parameter \<open>hexdigest\<close>.
\<close>

definition token_message :: "signed_data \<Rightarrow> string \<Rightarrow> string" where
  "token_message d now = (case data_id d of None \<Rightarrow> [] | Some i \<Rightarrow> i) @ '':'' @ now"

definition generate_token ::
  "(string \<Rightarrow> string \<Rightarrow> string) \<Rightarrow> string \<Rightarrow> signed_data \<Rightarrow> string \<Rightarrow> string" where
  "generate_token hexdigest key d now = hexdigest key (token_message d now)"

text \<open>
  \<^verbatim>\<open>hmac.compare_digest\<close> on two \<^verbatim>\<open>str\<close>: equality, and a TypeError when one of them has
  a character outside ASCII.
\<close>

definition is_ascii :: "char \<Rightarrow> bool" where
  "is_ascii c = (of_char c < (128 :: nat))"

definition compare_digest :: "string \<Rightarrow> string \<Rightarrow> py_error + bool" where
  "compare_digest a b =
     (if list_all is_ascii a \<and> list_all is_ascii b then Inr (a = b) else Inl TypeError)"

text \<open>
  \<^verbatim>\<open>verify_token\<close>: the expected token is generated afresh, with the reading of the clock
  at the time of the verification.
\<close>

definition verify_token ::
  "(string \<Rightarrow> string \<Rightarrow> string) \<Rightarrow> string \<Rightarrow> string \<Rightarrow> signed_data \<Rightarrow> string \<Rightarrow> py_error + bool" where
  "verify_token hexdigest key token d now =
     compare_digest token (generate_token hexdigest key d now)"

section \<open>CommunicationLayer (agent/communication/communication\_layer.py)\<close>

text \<open>What \<^verbatim>\<open>receive_data\<close> calls, in order.\<close>

datatype rx_event = VerifyCall string | DecryptCall string | HandlerCall string string

text \<open>
  \<^verbatim>\<open>receive_data\<close>. Every exception is caught by the \<^verbatim>\<open>try\<close> and the result is then False:
  the KeyError of \<^verbatim>\<open>data['signature']\<close> or \<^verbatim>\<open>data['data']\<close>, the TypeError of the
  comparison, the AttributeError of \<^verbatim>\<open>self.security.decrypt_data\<close> when the security
  manager has no such attribute, an exception of the decryption or of the handler.
  \<open>decrypt_data\<close> is that attribute of the security manager: \<open>None\<close> when it is absent, as
  in the \<^verbatim>\<open>SecurityManager\<close> of utils/security.py (which defines \<^verbatim>\<open>decrypt\<close> only), and
  otherwise a function that returns the plaintext or raises (\<open>None\<close>). The attribute is
  looked up before the argument \<^verbatim>\<open>data['data']\<close> is evaluated.
\<close>

definition receive_data ::
  "(string \<Rightarrow> string \<Rightarrow> string) \<Rightarrow> string \<Rightarrow> string \<Rightarrow> (string \<Rightarrow> string option) option
    \<Rightarrow> (string \<Rightarrow> string \<Rightarrow> reply) \<Rightarrow> string \<Rightarrow> signed_data \<Rightarrow> bool \<times> rx_event list" where
  "receive_data hexdigest key now decrypt_data handle_received_data sender_id d =
     (case data_signature d of
        None \<Rightarrow> (False, [])
      | Some sig \<Rightarrow>
          (case verify_token hexdigest key sig d now of
             Inl e \<Rightarrow> (False, [VerifyCall sig])
           | Inr False \<Rightarrow> (False, [VerifyCall sig])
           | Inr True \<Rightarrow>
               (case decrypt_data of
                  None \<Rightarrow> (False, [VerifyCall sig])
                | Some decrypt \<Rightarrow>
                    (case data_payload d of
                       None \<Rightarrow> (False, [VerifyCall sig])
                     | Some c \<Rightarrow>
                         (case decrypt c of
                            None \<Rightarrow> (False, [VerifyCall sig, DecryptCall c])
                          | Some plain \<Rightarrow>
                              (handle_received_data sender_id plain = Yes,
                               [VerifyCall sig, DecryptCall c, HandlerCall sender_id plain]))))))"

text \<open>
  The part of the communication layer the discovery loop works on: the interval, the
  directory \<^verbatim>\<open>available_devices\<close> and the table \<^verbatim>\<open>device_status\<close>.
\<close>

record communication_layer =
  discovery_interval :: rat
  available_devices :: "(string \<times> device_info) list"
  device_status :: "(string \<times> string) list"

text \<open>A call \<^verbatim>\<open>self.agent_core.handle_device_status_change(device_id, status)\<close>.\<close>

datatype notification = StatusChange string string

text \<open>
  The variables of one discovery cycle: the number of readings of the clock taken so far,
  the dictionary \<^verbatim>\<open>discovered_devices\<close>, the status table, and the notifications made.
\<close>

record discovery_state =
  clock_reads :: nat
  discovered_devices :: "(string \<times> device_info) list"
  status_table :: "(string \<times> string) list"
  notified :: "notification list"

text \<open>
  The loop over the devices one protocol handler reports. \<open>callback_returns\<close> tells
  whether \<^verbatim>\<open>handle_device_status_change\<close> returns; when it raises (as it does for the
  \<^verbatim>\<open>AgentCore\<close> of agent/core/agent\_core.py, which has no such method) the exception
  leaves the loop of this protocol. \<open>clock k\<close> is the \<open>k\<close>-th reading of \<^verbatim>\<open>time.time()\<close>
  in the cycle.
\<close>

fun process_protocol_devices ::
  "(string \<Rightarrow> string \<Rightarrow> bool) \<Rightarrow> (nat \<Rightarrow> rat) \<Rightarrow> string \<Rightarrow> (string \<times> device_info) list
    \<Rightarrow> discovery_state \<Rightarrow> discovery_state" where
  "process_protocol_devices callback_returns clock protocol [] st = st"
| "process_protocol_devices callback_returns clock protocol ((device_id, info) # rest) st =
     (let info' = info\<lparr>dev_protocol := Some protocol,
                        dev_last_seen := Some (clock (clock_reads st))\<rparr>;
          status = (case map_of (status_table st) device_id of
                      None \<Rightarrow> ''new''
                    | Some v \<Rightarrow> if v = ''disconnected'' then ''reconnected'' else v);
          st' = st\<lparr>clock_reads := Suc (clock_reads st),
                    discovered_devices := AList.update device_id info' (discovered_devices st),
                    status_table :=
                      (case map_of (status_table st) device_id of
                         None \<Rightarrow> AList.update device_id ''new'' (status_table st)
                       | Some v \<Rightarrow>
                           if v = ''disconnected''
                           then AList.update device_id ''reconnected'' (status_table st)
                           else status_table st),
                    notified := notified st @ [StatusChange device_id status]\<rparr>
      in if callback_returns device_id status
         then process_protocol_devices callback_returns clock protocol rest st'
         else st')"

text \<open>
  The loop over the protocol handlers, each with what its \<^verbatim>\<open>discover_devices()\<close> returns
  (\<open>None\<close> when it raises; the exception is logged and the next handler is tried).
\<close>

fun discover_all ::
  "(string \<Rightarrow> string \<Rightarrow> bool) \<Rightarrow> (nat \<Rightarrow> rat)
    \<Rightarrow> (string \<times> (string \<times> device_info) list option) list \<Rightarrow> discovery_state \<Rightarrow> discovery_state" where
  "discover_all callback_returns clock [] st = st"
| "discover_all callback_returns clock ((protocol, None) # handlers) st =
     discover_all callback_returns clock handlers st"
| "discover_all callback_returns clock ((protocol, Some devices) # handlers) st =
     discover_all callback_returns clock handlers
       (process_protocol_devices callback_returns clock protocol devices st)"

text \<open>
  The sweep \<^verbatim>\<open>for device_id, device_info in list(self.available_devices.items())\<close>: a record
  whose \<^verbatim>\<open>last_seen\<close> is more than twice the interval before \<^verbatim>\<open>current_time\<close> is marked
  disconnected. An exception (of the callback, or the KeyError of a record without
  \<^verbatim>\<open>last_seen\<close>) ends the sweep.
\<close>

fun sweep_disconnected ::
  "(string \<Rightarrow> string \<Rightarrow> bool) \<Rightarrow> rat \<Rightarrow> rat \<Rightarrow> (string \<times> device_info) list
    \<Rightarrow> (string \<times> string) list \<times> notification list \<Rightarrow> (string \<times> string) list \<times> notification list" where
  "sweep_disconnected callback_returns current_time interval [] acc = acc"
| "sweep_disconnected callback_returns current_time interval ((device_id, info) # rest)
       (status, notes) =
     (case dev_last_seen info of
        None \<Rightarrow> (status, notes)
      | Some seen \<Rightarrow>
          if current_time - seen > interval * 2 then
            (if callback_returns device_id ''disconnected''
             then sweep_disconnected callback_returns current_time interval rest
                    (AList.update device_id ''disconnected'' status,
                     notes @ [StatusChange device_id ''disconnected''])
             else (AList.update device_id ''disconnected'' status,
                   notes @ [StatusChange device_id ''disconnected'']))
          else sweep_disconnected callback_returns current_time interval rest (status, notes))"

text \<open>
  One pass of \<^verbatim>\<open>_discovery_loop\<close>: discovery with every handler, then
  \<^verbatim>\<open>self.available_devices = discovered_devices\<close>, then the sweep over the new directory.
\<close>

definition discovery_cycle ::
  "(string \<Rightarrow> string \<Rightarrow> bool) \<Rightarrow> (nat \<Rightarrow> rat)
    \<Rightarrow> (string \<times> (string \<times> device_info) list option) list \<Rightarrow> communication_layer
    \<Rightarrow> communication_layer \<times> notification list" where
  "discovery_cycle callback_returns clock handlers layer =
     (let st = discover_all callback_returns clock handlers
                 \<lparr>clock_reads = 0, discovered_devices = [],
                  status_table = device_status layer, notified = []\<rparr>;
          swept = sweep_disconnected callback_returns (clock (clock_reads st))
                    (discovery_interval layer) (discovered_devices st)
                    (status_table st, notified st)
      in (layer\<lparr>available_devices := discovered_devices st, device_status := fst swept\<rparr>,
          snd swept))"

text \<open>The identifiers the handlers report in a cycle.\<close>

definition reported_ids :: "(string \<times> (string \<times> device_info) list option) list \<Rightarrow> string set" where
  "reported_ids handlers =
     (\<Union>(protocol, result) \<in> set handlers.
        case result of None \<Rightarrow> {} | Some devices \<Rightarrow> fst ` set devices)"



section \<open>Example data\<close>

text \<open>
  Tasks, a desktop adapter with a display and no camera, and a directory with one peer that
  advertises a camera: the data of the end-to-end scenarios.
\<close>

definition task_a :: task where
  "task_a = \<lparr>task_id = Some ''a'', required_capabilities = Some [''has_display''],
     required_resources = Some [(''cpu_percent'', 50)], other_keys = []\<rparr>"

definition task_b :: task where
  "task_b = \<lparr>task_id = Some ''b'', required_capabilities = None,
     required_resources = None, other_keys = [(''description'', PStr ''index files'')]\<rparr>"

definition task_cam :: task where
  "task_cam = \<lparr>task_id = Some ''t1'', required_capabilities = Some [''camera''],
     required_resources = None, other_keys = []\<rparr>"

definition peer :: "(string \<times> pyval) list \<Rightarrow> device_info" where
  "peer caps = \<lparr>dev_capabilities = Some caps, dev_protocol = Some ''wifi'',
     dev_last_seen = Some 0, dev_other = []\<rparr>"

definition desktop_env :: environment where
  "desktop_env =
     \<lparr>adapter_capabilities =
        [(''type'', PStr ''desktop''), (''has_display'', PBool True), (''has_camera'', PBool False)],
      adapter_available = (\<lambda>k. [(''cpu_percent'', 75), (''memory_percent'', 60)]),
      adapter_execute = (\<lambda>t. Yes),
      adapter_stop = (\<lambda>i. Yes),
      comm_devices = [(''D1'', peer [(''camera'', PBool True)])],
      comm_send = (\<lambda>d m. True)\<rparr>"





text \<open>
  A digest function for the examples, in place of HMAC-SHA256: the hexadecimal text of key
  and message. Like a hexadecimal digest its output is ASCII, and it tells the messages of
  the examples apart.
\<close>

definition hex_digit :: "nat \<Rightarrow> char" where
  "hex_digit n = ''0123456789abcdef'' ! n"

definition example_hexdigest :: "string \<Rightarrow> string \<Rightarrow> string" where
  "example_hexdigest key m =
     concat (map (\<lambda>c. [hex_digit (of_char c div 16), hex_digit (of_char c mod 16)]) (key @ m))"

definition envelope_t1 :: signed_data where
  "envelope_t1 = \<lparr>data_id = Some ''t1'', data_signature = Some ''00ff'',
     data_payload = Some ''ciphertext''\<rparr>"

text \<open>
  A layer that discovered \<open>D1\<close> at time 0, with an interval of 30 seconds, and a cycle at
  time 1000 in which the only handler reports no device.
\<close>

definition layer_with_D1 :: communication_layer where
  "layer_with_D1 =
     \<lparr>discovery_interval = 30,
      available_devices = [(''D1'', peer [(''camera'', PBool True)])],
      device_status = [(''D1'', ''new'')]\<rparr>"

definition busy_manager :: task_manager where
  "busy_manager = (TaskManager_init 2 2)\<lparr>task_queues := [[task_a, task_cam], [task_b]],
     running := True\<rparr>"

section \<open>The cases of the scheduler's loop\<close>

text \<open>
  One rule for every property of \<open>scheduler_admit\<close>: a case for each way an iteration of
  the loop can go, with the property of the rest of the loop as hypothesis where the loop
  goes on.
\<close>

lemma scheduler_admit_rule
  [consumes 1, case_names full idle falsy raises refused no_id admitted migrate]:
  assumes result: "scheduler_admit env k s = r"
    and full: "\<And>k s. \<not> int (length (active_tasks s)) < max_concurrent s \<Longrightarrow> P k s (s, [])"
    and idle: "\<And>k s. int (length (active_tasks s)) < max_concurrent s \<Longrightarrow>
        first_nonempty (task_queues s) = None \<Longrightarrow> P k s (s, [])"
    and falsy: "\<And>k s p t. int (length (active_tasks s)) < max_concurrent s \<Longrightarrow>
        first_nonempty (task_queues s) = Some (p, t) \<Longrightarrow> task_falsy t \<Longrightarrow>
        P k s (s, [Considered p t])"
    and raises: "\<And>k s p t. int (length (active_tasks s)) < max_concurrent s \<Longrightarrow>
        first_nonempty (task_queues s) = Some (p, t) \<Longrightarrow> \<not> task_falsy t \<Longrightarrow>
        can_execute_task (adapter_capabilities env) (adapter_available env k) t \<Longrightarrow>
        adapter_execute env t = Raises \<Longrightarrow>
        P k s (pop_queue s p, [Considered p t, ExecuteCall t])"
    and refused: "\<And>k s p t s' evs. int (length (active_tasks s)) < max_concurrent s \<Longrightarrow>
        first_nonempty (task_queues s) = Some (p, t) \<Longrightarrow> \<not> task_falsy t \<Longrightarrow>
        can_execute_task (adapter_capabilities env) (adapter_available env k) t \<Longrightarrow>
        adapter_execute env t = No \<Longrightarrow>
        scheduler_admit env (Suc k) (pop_queue s p) = (s', evs) \<Longrightarrow>
        P (Suc k) (pop_queue s p) (s', evs) \<Longrightarrow>
        P k s (s', Considered p t # ExecuteCall t # evs)"
    and no_id: "\<And>k s p t. int (length (active_tasks s)) < max_concurrent s \<Longrightarrow>
        first_nonempty (task_queues s) = Some (p, t) \<Longrightarrow> \<not> task_falsy t \<Longrightarrow>
        can_execute_task (adapter_capabilities env) (adapter_available env k) t \<Longrightarrow>
        adapter_execute env t = Yes \<Longrightarrow> task_id t = None \<Longrightarrow>
        P k s (pop_queue s p, [Considered p t, ExecuteCall t])"
    and admitted: "\<And>k s p t i s' evs. int (length (active_tasks s)) < max_concurrent s \<Longrightarrow>
        first_nonempty (task_queues s) = Some (p, t) \<Longrightarrow> \<not> task_falsy t \<Longrightarrow>
        can_execute_task (adapter_capabilities env) (adapter_available env k) t \<Longrightarrow>
        adapter_execute env t = Yes \<Longrightarrow> task_id t = Some i \<Longrightarrow>
        scheduler_admit env (Suc k)
          ((pop_queue s p)\<lparr>active_tasks := AList.update i t (active_tasks s)\<rparr>) = (s', evs) \<Longrightarrow>
        P (Suc k) ((pop_queue s p)\<lparr>active_tasks := AList.update i t (active_tasks s)\<rparr>) (s', evs) \<Longrightarrow>
        P k s (s', Considered p t # ExecuteCall t # Activated i t # evs)"
    and migrate: "\<And>k s p t s' evs raised. int (length (active_tasks s)) < max_concurrent s \<Longrightarrow>
        first_nonempty (task_queues s) = Some (p, t) \<Longrightarrow> \<not> task_falsy t \<Longrightarrow>
        \<not> can_execute_task (adapter_capabilities env) (adapter_available env k) t \<Longrightarrow>
        try_migrate_task env s t p = (s', evs, raised) \<Longrightarrow>
        P k s (s', Considered p t # MigrateCall t p # evs)"
  shows "P k s r"
proof -
  have "P k s (scheduler_admit env k s)"
    using full idle falsy raises refused no_id admitted migrate
proof (induction env k s rule: scheduler_admit.induct)
  case (1 env k s)
  note full = "1.prems"(1) and idle = "1.prems"(2) and falsy = "1.prems"(3)
    and raises = "1.prems"(4) and refused = "1.prems"(5) and no_id = "1.prems"(6)
    and admitted = "1.prems"(7) and migrate = "1.prems"(8)
  show ?case
  proof (cases "int (length (active_tasks s)) < max_concurrent s")
    case False
    then have eq: "scheduler_admit env k s = (s, [])"
      by (subst scheduler_admit.simps) simp
    show ?thesis unfolding eq by (rule full [OF False])
  next
    case lt: True
    show ?thesis
    proof (cases "first_nonempty (task_queues s)")
      case None
      with lt have eq: "scheduler_admit env k s = (s, [])"
        by (subst scheduler_admit.simps) simp
      show ?thesis unfolding eq by (rule idle [OF lt None])
    next
      case (Some pt)
      obtain p t where pt: "pt = (p, t)" by (cases pt)
      have fn: "first_nonempty (task_queues s) = Some (p, t)" using Some pt by simp
      show ?thesis
      proof (cases "task_falsy t")
        case True
        with lt fn have eq: "scheduler_admit env k s = (s, [Considered p t])"
          by (subst scheduler_admit.simps) simp
        show ?thesis unfolding eq by (rule falsy [OF lt fn True])
      next
        case nf: False
        show ?thesis
        proof (cases "can_execute_task (adapter_capabilities env) (adapter_available env k) t")
          case False
          obtain s' evs raised where m: "try_migrate_task env s t p = (s', evs, raised)"
            by (cases "try_migrate_task env s t p")
          from lt fn nf False m
          have eq: "scheduler_admit env k s = (s', Considered p t # MigrateCall t p # evs)"
            by (subst scheduler_admit.simps) simp
          show ?thesis unfolding eq by (rule migrate [OF lt fn nf False m])
        next
          case ce: True
          show ?thesis
          proof (cases "adapter_execute env t")
            case Raises
            from lt fn nf ce Raises
            have eq: "scheduler_admit env k s = (pop_queue s p, [Considered p t, ExecuteCall t])"
              by (subst scheduler_admit.simps) (simp add: pop_queue_def)
            show ?thesis unfolding eq by (rule raises [OF lt fn nf ce Raises])
          next
            case No
            obtain s' evs where r: "scheduler_admit env (Suc k) (pop_queue s p) = (s', evs)"
              by (cases "scheduler_admit env (Suc k) (pop_queue s p)")
            have "P (Suc k) (pop_queue s p) (scheduler_admit env (Suc k) (pop_queue s p))"
              unfolding pop_queue_def by (rule "1.IH"(2) [OF lt fn refl nf ce No "1.prems"])
            then have ih: "P (Suc k) (pop_queue s p) (s', evs)" unfolding r .
            from lt fn nf ce No r [unfolded pop_queue_def]
            have eq: "scheduler_admit env k s = (s', Considered p t # ExecuteCall t # evs)"
              by (subst scheduler_admit.simps) simp
            show ?thesis unfolding eq by (rule refused [OF lt fn nf ce No r ih])
          next
            case Yes
            show ?thesis
            proof (cases "task_id t")
              case None
              from lt fn nf ce Yes None
              have eq: "scheduler_admit env k s = (pop_queue s p, [Considered p t, ExecuteCall t])"
                by (subst scheduler_admit.simps) (simp add: pop_queue_def)
              show ?thesis unfolding eq by (rule no_id [OF lt fn nf ce Yes None])
            next
              case (Some i)
              let ?s1 = "(pop_queue s p)\<lparr>active_tasks := AList.update i t (active_tasks s)\<rparr>"
              obtain s' evs where r: "scheduler_admit env (Suc k) ?s1 = (s', evs)"
                by (cases "scheduler_admit env (Suc k) ?s1")
              have "P (Suc k) ?s1 (scheduler_admit env (Suc k) ?s1)"
                unfolding pop_queue_def
                by (rule "1.IH"(1) [OF lt fn refl nf ce Yes Some "1.prems"])
              then have ih: "P (Suc k) ?s1 (s', evs)" unfolding r .
              from lt fn nf ce Yes Some r [unfolded pop_queue_def]
              have eq: "scheduler_admit env k s
                  = (s', Considered p t # ExecuteCall t # Activated i t # evs)"
                by (subst scheduler_admit.simps) simp
              show ?thesis unfolding eq by (rule admitted [OF lt fn nf ce Yes Some r ih])
            qed
          qed
        qed
      qed
    qed
  qed
qed
  then show ?thesis using result by simp
qed

section \<open>Properties of one pass of the scheduler\<close>

lemma try_migrate_devices_facts:
  "try_migrate_devices send t p ds qs = (qs', evs, r) \<Longrightarrow>
     length qs' = length qs \<and> (\<forall>i < length qs. suffix (qs' ! i) (qs ! i))
     \<and> considered evs = [] \<and> dispatched evs = [] \<and> migrations evs = []
     \<and> (\<forall>x \<in> set (sends evs). fst (snd x) = TaskOffer t p)"
proof (induction ds arbitrary: evs)
  case Nil
  then show ?case by simp
next
  case (Cons d ds)
  obtain device_id info where d: "d = (device_id, info)" by (cases d)
  show ?case using Cons d
    by (auto simp: pop_head_def nth_list_update suffix_tl split: if_splits option.splits prod.splits)
qed

lemma try_migrate_task_facts:
  assumes "try_migrate_task env s t p = (s', evs, r)"
  shows "active_tasks s' = active_tasks s" "max_concurrent s' = max_concurrent s"
    "priority_levels s' = priority_levels s" "running s' = running s"
    "length (task_queues s') = length (task_queues s)"
    "\<forall>i < length (task_queues s). suffix (task_queues s' ! i) (task_queues s ! i)"
    "considered evs = []" "dispatched evs = []" "migrations evs = []"
    "\<forall>x \<in> set (sends evs). fst (snd x) = TaskOffer t p"
  using assms try_migrate_devices_facts [of "comm_send env" t p "comm_devices env" "task_queues s"]
  by (auto simp: try_migrate_task_def split: prod.splits)

lemma pop_queue_fields [simp]:
  "active_tasks (pop_queue s p) = active_tasks s" "max_concurrent (pop_queue s p) = max_concurrent s"
  "priority_levels (pop_queue s p) = priority_levels s" "running (pop_queue s p) = running s"
  "length (task_queues (pop_queue s p)) = length (task_queues s)"
  "task_queues (pop_queue s p) = (task_queues s)[p := tl (task_queues s ! p)]"
  by (simp_all add: pop_queue_def)

lemma length_update_le: "length (AList.update k v al) \<le> Suc (length al)"
  by (induction al) auto

lemma scheduler_admit_active_bounded:
  assumes "scheduler_admit env k s = r"
  shows "active_bounded s \<longrightarrow> active_bounded (fst r)"
  using assms
proof (induction rule: scheduler_admit_rule)
  case (admitted k s p t i s' evs)
  have "length (AList.update i t (active_tasks s)) \<le> Suc (length (active_tasks s))"
    by (rule length_update_le)
  with admitted show ?case by (auto simp: active_bounded_def distinct_update)
next
  case (migrate k s p t s' evs raised)
  from try_migrate_task_facts(1,2) [OF migrate(5)] show ?case by (simp add: active_bounded_def)
qed (auto simp: active_bounded_def)

lemma scheduler_admit_fields:
  assumes "scheduler_admit env k s = r"
  shows "max_concurrent (fst r) = max_concurrent s
   \<and> priority_levels (fst r) = priority_levels s
   \<and> running (fst r) = running s
   \<and> length (task_queues (fst r)) = length (task_queues s)"
  using assms
proof (induction rule: scheduler_admit_rule)
  case (migrate k s p t s' evs raised)
  from try_migrate_task_facts [OF migrate(5)] show ?case by simp
qed auto

lemma scheduler_admit_migrations:
  assumes "scheduler_admit env k s = r"
  shows "(\<forall>x \<in> set (migrations (snd r)).
            \<exists>j. \<not> can_execute_task (adapter_capabilities env) (adapter_available env j) (fst x))
       \<and> (\<forall>x \<in> set (sends (snd r)). \<exists>t p. fst (snd x) = TaskOffer t p
            \<and> (\<exists>j. \<not> can_execute_task (adapter_capabilities env) (adapter_available env j) t))"
  using assms
proof (induction rule: scheduler_admit_rule)
  case (migrate k s p t s' evs raised)
  from try_migrate_task_facts(9,10) [OF migrate(5)] migrate(4) show ?case by auto
qed auto

lemma scheduler_admit_order:
  assumes "scheduler_admit env k s = r"
  shows "prefix (considered (snd r)) (concat (task_queues s))
       \<and> prefix (dispatched (snd r)) (considered (snd r))
       \<and> (\<forall>i < length (task_queues s). suffix (task_queues (fst r) ! i) (task_queues s ! i))"
  using assms
proof (induction rule: scheduler_admit_rule)
  case (full k s)
  then show ?case by simp
next
  case (idle k s)
  then show ?case by simp
next
  case (falsy k s p t)
  from first_nonempty_concat [OF falsy(2)] show ?case by simp
next
  case (raises k s p t)
  from first_nonempty_concat [OF raises(2)] show ?case
    by (auto simp: nth_list_update suffix_tl)
next
  case (refused k s p t s' evs)
  from first_nonempty_concat [OF refused(2)] refused(7) show ?case
    by (auto simp: nth_list_update intro: suffix_order.trans suffix_tl split: if_splits)
next
  case (no_id k s p t)
  from first_nonempty_concat [OF no_id(2)] show ?case
    by (auto simp: nth_list_update suffix_tl)
next
  case (admitted k s p t i s' evs)
  from first_nonempty_concat [OF admitted(2)] admitted(8) show ?case
    by (auto simp: nth_list_update intro: suffix_order.trans suffix_tl split: if_splits)
next
  case (migrate k s p t s' evs raised)
  from first_nonempty_concat [OF migrate(2)] try_migrate_task_facts [OF migrate(5)]
  show ?case by simp
qed

section \<open>Submitting and cancelling\<close>

lemma queues_wf_init: "queues_wf (TaskManager_init mc pl)"
  by (simp add: queues_wf_def TaskManager_init_def)

lemma queues_wf_add_task: "queues_wf s \<Longrightarrow> queues_wf (fst (add_task s t p))"
  by (simp add: queues_wf_def add_task_def)

lemma queues_wf_stop_task: "queues_wf s \<Longrightarrow> queues_wf (fst (stop_task f s tid))"
  by (simp add: queues_wf_def stop_task_def split: reply.splits)

text \<open>
  Every state a run goes through from a freshly constructed manager has the queues its
  constructor made.
\<close>

lemma queues_wf_apply_operation: "queues_wf s \<Longrightarrow> queues_wf (fst (apply_operation a s))"
proof (cases a)
  case (Pass env)
  assume "queues_wf s"
  with Pass scheduler_admit_fields [where env = env and k = 0 and s = s, OF refl]
  show ?thesis by (simp add: scheduler_loop_pass_def queues_wf_def)
qed (simp_all add: queues_wf_def start_def add_task_def stop_task_def stop_def Let_def
      split: reply.splits)

lemma queues_wf_run: "queues_wf s \<Longrightarrow> \<forall>s' \<in> set (run ops s). queues_wf s'"
proof (induction ops arbitrary: s)
  case Nil
  then show ?case by simp
next
  case (Cons a ops)
  from queues_wf_apply_operation [OF Cons.prems, of a]
  have next_ok: "queues_wf (fst (apply_operation a s))" .
  from Cons.IH [OF next_ok] Cons.prems next_ok show ?case
    by (auto split: if_splits)
qed

text \<open>
  C5. On a manager with \<open>N\<close> priority levels, \<open>add_task\<close> returns True iff \<open>0 \<le> p < N\<close>;
  on success the task is appended at the tail of queue \<open>p\<close>, every other queue and the rest
  of the state are as before; on failure the result is False (a value, not an exception)
  and the state is unchanged.
\<close>

theorem add_task_in_range:
  assumes "queues_wf s"
  shows "(snd (add_task s t p) \<longleftrightarrow> 0 \<le> p \<and> p < priority_levels s)
    \<and> (0 \<le> p \<and> p < priority_levels s \<longrightarrow>
         task_queues (fst (add_task s t p)) ! nat p = task_queues s ! nat p @ [t]
         \<and> length (task_queues (fst (add_task s t p))) = length (task_queues s)
         \<and> (\<forall>q. q \<noteq> nat p \<longrightarrow> task_queues (fst (add_task s t p)) ! q = task_queues s ! q)
         \<and> active_tasks (fst (add_task s t p)) = active_tasks s
         \<and> running (fst (add_task s t p)) = running s)
    \<and> (\<not> (0 \<le> p \<and> p < priority_levels s) \<longrightarrow> add_task s t p = (s, False))"
proof -
  have len: "length (task_queues s) = nat (priority_levels s)"
    using assms by (simp add: queues_wf_def)
  show ?thesis
  proof (cases "0 \<le> p \<and> p < priority_levels s")
    case True
    then have "nat p < length (task_queues s)" using len by simp
    with True show ?thesis by (simp add: add_task_def)
  next
    case False
    then show ?thesis by (auto simp: add_task_def)
  qed
qed

theorem add_task_in_range_witness:
  "queues_wf (TaskManager_init 5 3)
   \<and> snd (add_task (TaskManager_init 5 3) \<lparr>task_id = Some ''t1'', required_capabilities = None,
        required_resources = None, other_keys = []\<rparr> 2)
   \<and> task_queues (fst (add_task (TaskManager_init 5 3) \<lparr>task_id = Some ''t1'',
        required_capabilities = None, required_resources = None, other_keys = []\<rparr> 2)) ! 2
      = [\<lparr>task_id = Some ''t1'', required_capabilities = None,
           required_resources = None, other_keys = []\<rparr>]
   \<and> add_task (TaskManager_init 5 3) \<lparr>task_id = Some ''t1'', required_capabilities = None,
        required_resources = None, other_keys = []\<rparr> 3
      = (TaskManager_init 5 3, False)"
proof -
  let ?s = "TaskManager_init 5 3"
  let ?t = "\<lparr>task_id = Some ''t1'', required_capabilities = None,
        required_resources = None, other_keys = []\<rparr>"
  have wf: "queues_wf ?s" by (rule queues_wf_init)
  have pl: "priority_levels ?s = 3" by (simp add: TaskManager_init_def)
  have q2: "task_queues ?s ! nat 2 = []"
    by (simp add: TaskManager_init_def numeral_3_eq_3 numeral_2_eq_2)
  have a: "snd (add_task ?s ?t 2) \<and> task_queues (fst (add_task ?s ?t 2)) ! nat 2 = [?t]"
    using add_task_in_range [OF wf, of ?t 2] pl q2 by simp
  have b: "add_task ?s ?t 3 = (?s, False)"
    using add_task_in_range [OF wf, of ?t 3] pl by simp
  from wf a b show ?thesis by simp
qed

text \<open>
  C6 (as the code has it). \<open>add_task\<close> does not read the running flag: on a stopped manager
  an in-range submission is appended to its queue and answers True, and for either value
  of the flag the queues and the answer are the same.
\<close>

theorem add_task_ignores_running:
  assumes "queues_wf s" and "\<not> running s" and "0 \<le> p" and "p < priority_levels s"
  shows "add_task s t p
      = (s\<lparr>task_queues := (task_queues s)[nat p := task_queues s ! nat p @ [t]]\<rparr>, True)
    \<and> task_queues (fst (add_task s t p)) \<noteq> task_queues s
    \<and> task_queues (fst (add_task (s\<lparr>running := True\<rparr>) t p)) = task_queues (fst (add_task s t p))
    \<and> snd (add_task (s\<lparr>running := True\<rparr>) t p) = snd (add_task s t p)"
proof -
  have len: "nat p < length (task_queues s)"
    using assms by (simp add: queues_wf_def)
  have neq: "(task_queues s)[nat p := task_queues s ! nat p @ [t]] \<noteq> task_queues s"
  proof
    assume "(task_queues s)[nat p := task_queues s ! nat p @ [t]] = task_queues s"
    then have "(task_queues s)[nat p := task_queues s ! nat p @ [t]] ! nat p = task_queues s ! nat p"
      by simp
    with len show False by simp
  qed
  from assms len neq show ?thesis by (simp add: add_task_def)
qed

theorem add_task_ignores_running_witness:
  "queues_wf (TaskManager_init 5 3) \<and> \<not> running (TaskManager_init 5 3)
   \<and> (0::int) \<le> 0 \<and> 0 < priority_levels (TaskManager_init 5 3)
   \<and> add_task (TaskManager_init 5 3) \<lparr>task_id = Some ''t1'', required_capabilities = None,
        required_resources = None, other_keys = []\<rparr> 0
      = ((TaskManager_init 5 3)\<lparr>task_queues := [[\<lparr>task_id = Some ''t1'',
           required_capabilities = None, required_resources = None, other_keys = []\<rparr>], [], []]\<rparr>,
         True)"
proof -
  let ?s = "TaskManager_init 5 3"
  let ?t = "\<lparr>task_id = Some ''t1'', required_capabilities = None,
        required_resources = None, other_keys = []\<rparr>"
  have wf: "queues_wf ?s" by (rule queues_wf_init)
  have nr: "\<not> running ?s" by (simp add: TaskManager_init_def)
  have pl: "0 < priority_levels ?s" by (simp add: TaskManager_init_def)
  have qs: "task_queues ?s = [[], [], []]"
    by (simp add: TaskManager_init_def numeral_3_eq_3)
  from add_task_ignores_running [OF wf nr order_refl pl, of ?t] qs wf nr pl
  show ?thesis by simp
qed

text \<open>
  C6 as stated fails: a freshly constructed manager is stopped, and an in-range submission
  changes its queues and answers True.
\<close>

theorem add_task_stopped_counterexample:
  "\<not> running (TaskManager_init 5 3)
   \<and> snd (add_task (TaskManager_init 5 3) \<lparr>task_id = Some ''t1'', required_capabilities = None,
        required_resources = None, other_keys = []\<rparr> 0)
   \<and> task_queues (fst (add_task (TaskManager_init 5 3) \<lparr>task_id = Some ''t1'',
        required_capabilities = None, required_resources = None, other_keys = []\<rparr> 0))
      \<noteq> task_queues (TaskManager_init 5 3)"
  by (simp add: add_task_def TaskManager_init_def numeral_3_eq_3)

text \<open>
  C10. For a task id in the active task table: when the adapter's \<open>stop_task\<close> does not
  answer true (it answers false or raises), \<open>stop_task\<close> returns False and the manager is
  unchanged; when it answers true the entry for that id, and no other, is removed and the
  result is True. So the entry is removed iff the adapter's stop succeeds. For an id that
  is not in the table the result is False and the manager is unchanged.
\<close>

theorem stop_task_atomic:
  "(dict_has (active_tasks s) tid \<and> adapter_stop_fn tid \<noteq> Yes \<longrightarrow>
      stop_task adapter_stop_fn s tid = (s, False))
   \<and> (dict_has (active_tasks s) tid \<and> adapter_stop_fn tid = Yes \<longrightarrow>
      stop_task adapter_stop_fn s tid = (s\<lparr>active_tasks := AList.delete tid (active_tasks s)\<rparr>, True)
      \<and> \<not> dict_has (active_tasks (fst (stop_task adapter_stop_fn s tid))) tid
      \<and> (\<forall>k. k \<noteq> tid \<longrightarrow> map_of (active_tasks (fst (stop_task adapter_stop_fn s tid))) k
             = map_of (active_tasks s) k))
   \<and> (dict_has (active_tasks s) tid \<longrightarrow>
      (dict_has (active_tasks (fst (stop_task adapter_stop_fn s tid))) tid
         \<longleftrightarrow> adapter_stop_fn tid \<noteq> Yes))
   \<and> (\<not> dict_has (active_tasks s) tid \<longrightarrow> stop_task adapter_stop_fn s tid = (s, False))"
  by (cases "adapter_stop_fn tid")
     (auto simp: stop_task_def dict_has_def delete_notin_dom)

lemma apply_operation_bounded:
  assumes "active_bounded s"
  shows "active_bounded (fst (apply_operation a s))"
proof (cases a)
  case Start
  with assms show ?thesis by (simp add: start_def active_bounded_def)
next
  case (Submit t p)
  with assms show ?thesis by (simp add: add_task_def active_bounded_def)
next
  case (Pass env)
  with assms scheduler_admit_active_bounded [where env = env and k = 0 and s = s, OF refl]
  show ?thesis by (simp add: scheduler_loop_pass_def)
next
  case (Cancel env tid)
  have "length (AList.delete tid (active_tasks s)) \<le> length (active_tasks s)"
    by (rule length_delete_le)
  with Cancel assms show ?thesis
    by (auto simp: stop_task_def active_bounded_def distinct_delete split: reply.splits)
next
  case Stop
  with assms show ?thesis by (simp add: stop_def active_bounded_def Let_def)
qed

lemma run_bounded:
  "active_bounded s \<Longrightarrow> \<forall>s' \<in> set (run ops s). active_bounded s'"
proof (induction ops arbitrary: s)
  case Nil
  then show ?case by simp
next
  case (Cons a ops)
  from apply_operation_bounded [OF Cons.prems, of a]
  have next_ok: "active_bounded (fst (apply_operation a s))" .
  from Cons.IH [OF next_ok] Cons.prems next_ok show ?case
    by (auto split: if_splits)
qed

text \<open>
  C2. Every operation keeps the bound \<open>|active_tasks| \<le> max_concurrent\<close>: from a state
  within the bound, every state a sequence of operations goes through is within it. A
  freshly constructed manager is within the bound when \<open>max_concurrent\<close> is not negative,
  so every state reached from it is.
\<close>

theorem active_tasks_bounded:
  "(active_bounded s \<longrightarrow> (\<forall>s' \<in> set (run ops s). active_bounded s'))
   \<and> (0 \<le> mc \<longrightarrow> (\<forall>s' \<in> set (run ops (TaskManager_init mc pl)).
         int (length (active_tasks s')) \<le> mc))"
proof -
  have maxc: "max_concurrent s' = max_concurrent s0" if "s' \<in> set (run ops s0)" for s' s0
    using that
  proof (induction ops arbitrary: s0)
    case Nil
    then show ?case by simp
  next
    case (Cons a ops)
    have step: "max_concurrent (fst (apply_operation a s0)) = max_concurrent s0"
      using scheduler_admit_fields [where k = 0 and s = s0, OF refl]
      by (cases a) (auto simp: start_def add_task_def stop_task_def stop_def Let_def
          scheduler_loop_pass_def split: reply.splits)
    from Cons.prems Cons.IH [of "fst (apply_operation a s0)"] step show ?case
      by (auto split: if_splits)
  qed
  have init: "active_bounded (TaskManager_init mc pl)" if "0 \<le> mc"
    using that by (simp add: active_bounded_def TaskManager_init_def)
  have "int (length (active_tasks s')) \<le> mc"
    if "0 \<le> mc" "s' \<in> set (run ops (TaskManager_init mc pl))" for s'
  proof -
    from run_bounded [OF init [OF that(1)]] that(2) have "active_bounded s'" by blast
    moreover from maxc [OF that(2)] have "max_concurrent s' = mc"
      by (simp add: TaskManager_init_def)
    ultimately show ?thesis by (simp add: active_bounded_def)
  qed
  with run_bounded show ?thesis by blast
qed

theorem active_tasks_bounded_witness:
  "(0::int) \<le> 1 \<and> active_bounded (TaskManager_init 1 2)
   \<and> list_all (\<lambda>s'. int (length (active_tasks s')) \<le> 1)
        (run [Start, Submit task_a 0, Submit task_b 1, Pass desktop_env, Cancel desktop_env ''a'',
              Pass desktop_env, Stop] (TaskManager_init 1 2))
   \<and> map (\<lambda>s'. length (active_tasks s'))
        (run [Start, Submit task_a 0, Submit task_b 1, Pass desktop_env, Cancel desktop_env ''a'',
              Pass desktop_env, Stop] (TaskManager_init 1 2))
      = [0, 0, 0, 0, 1, 0, 1, 1]"
proof -
  let ?ops = "[Start, Submit task_a 0, Submit task_b 1, Pass desktop_env, Cancel desktop_env ''a'',
              Pass desktop_env, Stop]"
  have init: "active_bounded (TaskManager_init 1 2)"
    by (simp add: active_bounded_def TaskManager_init_def)
  have trace: "map (\<lambda>s'. length (active_tasks s')) (run ?ops (TaskManager_init 1 2))
      = [0, 0, 0, 0, 1, 0, 1, 1]"
    by code_simp
  from active_tasks_bounded [of "TaskManager_init 1 2" ?ops 1 2]
  have "\<forall>s' \<in> set (run ?ops (TaskManager_init 1 2)). int (length (active_tasks s')) \<le> 1"
    by simp
  then have "list_all (\<lambda>s'. int (length (active_tasks s')) \<le> 1) (run ?ops (TaskManager_init 1 2))"
    by (simp add: list_all_iff)
  with init trace show ?thesis by simp
qed

theorem stop_task_atomic_witness:
  "dict_has (active_tasks (busy_manager\<lparr>active_tasks := [(''a'', task_a)]\<rparr>)) ''a''
   \<and> stop_task (\<lambda>i. No) (busy_manager\<lparr>active_tasks := [(''a'', task_a)]\<rparr>) ''a''
      = (busy_manager\<lparr>active_tasks := [(''a'', task_a)]\<rparr>, False)
   \<and> stop_task (\<lambda>i. Raises) (busy_manager\<lparr>active_tasks := [(''a'', task_a)]\<rparr>) ''a''
      = (busy_manager\<lparr>active_tasks := [(''a'', task_a)]\<rparr>, False)
   \<and> stop_task (\<lambda>i. Yes) (busy_manager\<lparr>active_tasks := [(''a'', task_a)]\<rparr>) ''a''
      = (busy_manager\<lparr>active_tasks := []\<rparr>, True)
   \<and> \<not> dict_has (active_tasks (busy_manager\<lparr>active_tasks := [(''a'', task_a)]\<rparr>)) ''b''
   \<and> stop_task (\<lambda>i. Yes) (busy_manager\<lparr>active_tasks := [(''a'', task_a)]\<rparr>) ''b''
      = (busy_manager\<lparr>active_tasks := [(''a'', task_a)]\<rparr>, False)"
proof -
  let ?s = "busy_manager\<lparr>active_tasks := [(''a'', task_a)]\<rparr>"
  have a: "dict_has (active_tasks ?s) ''a''" by (simp add: dict_has_def)
  have b: "\<not> dict_has (active_tasks ?s) ''b''" by (simp add: dict_has_def)
  from stop_task_atomic [of ?s "''a''" "\<lambda>i. No"] a
  have 1: "stop_task (\<lambda>i. No) ?s ''a'' = (?s, False)" by simp
  from stop_task_atomic [of ?s "''a''" "\<lambda>i. Raises"] a
  have 2: "stop_task (\<lambda>i. Raises) ?s ''a'' = (?s, False)" by simp
  from stop_task_atomic [of ?s "''a''" "\<lambda>i. Yes"] a
  have 3: "stop_task (\<lambda>i. Yes) ?s ''a'' = (busy_manager\<lparr>active_tasks := []\<rparr>, True)" by simp
  from stop_task_atomic [of ?s "''b''" "\<lambda>i. Yes"] b
  have 4: "stop_task (\<lambda>i. Yes) ?s ''b'' = (?s, False)" by simp
  from a b 1 2 3 4 show ?thesis by simp
qed

text \<open>
  C4. If \<open>can_execute_task\<close> holds of a task at every reading of the available resources
  taken during a pass, the pass never calls the migration step on that task and offers it
  to no device. More precisely, every task the pass migrates or offers failed
  \<open>can_execute_task\<close> at some reading.
\<close>

theorem executable_task_not_migrated:
  assumes "\<forall>j. can_execute_task (adapter_capabilities env) (adapter_available env j) t"
  shows "(\<forall>p. (t, p) \<notin> set (migrations (snd (scheduler_loop_pass env s))))
    \<and> (\<forall>d p b. (d, TaskOffer t p, b) \<notin> set (sends (snd (scheduler_loop_pass env s))))"
proof (cases "running s")
  case False
  then show ?thesis by (simp add: scheduler_loop_pass_def)
next
  case True
  note facts = scheduler_admit_migrations [where env = env and k = 0 and s = s, OF refl]
  have "(t, p) \<notin> set (migrations (snd (scheduler_admit env 0 s)))" for p
  proof
    assume "(t, p) \<in> set (migrations (snd (scheduler_admit env 0 s)))"
    with facts obtain j where
      "\<not> can_execute_task (adapter_capabilities env) (adapter_available env j) t"
      by fastforce
    with assms show False by simp
  qed
  moreover have "(d, TaskOffer t p, b) \<notin> set (sends (snd (scheduler_admit env 0 s)))" for d p b
  proof
    assume "(d, TaskOffer t p, b) \<in> set (sends (snd (scheduler_admit env 0 s)))"
    with facts obtain j where
      "\<not> can_execute_task (adapter_capabilities env) (adapter_available env j) t"
      by fastforce
    with assms show False by simp
  qed
  ultimately show ?thesis using True by (simp add: scheduler_loop_pass_def)
qed

theorem executable_task_not_migrated_witness:
  "(\<forall>j. can_execute_task (adapter_capabilities desktop_env) (adapter_available desktop_env j) task_a)
   \<and> (task_a, 0) \<notin> set (migrations (snd (scheduler_loop_pass desktop_env busy_manager)))
   \<and> (''D1'', TaskOffer task_a 0, True) \<notin> set (sends (snd (scheduler_loop_pass desktop_env busy_manager)))
   \<and> dispatched (snd (scheduler_loop_pass desktop_env busy_manager)) = [task_a]
   \<and> migrations (snd (scheduler_loop_pass desktop_env busy_manager)) = [(task_cam, 0)]"
proof -
  have can: "can_execute_task (adapter_capabilities desktop_env) (adapter_available desktop_env j) task_a"
    for j
    by (simp add: desktop_env_def task_a_def can_execute_task_def dict_get_def)
  then have hyp: "\<forall>j. can_execute_task (adapter_capabilities desktop_env)
      (adapter_available desktop_env j) task_a" by blast
  have ev: "dispatched (snd (scheduler_loop_pass desktop_env busy_manager)) = [task_a]"
    "migrations (snd (scheduler_loop_pass desktop_env busy_manager)) = [(task_cam, 0)]"
    by code_simp+
  from executable_task_not_migrated [OF hyp, of busy_manager] hyp ev show ?thesis by blast
qed

lemma first_nonempty_lowest:
  "first_nonempty qs = Some (p, t) \<Longrightarrow> \<forall>i < p. qs ! i = []"
proof (induction qs arbitrary: p rule: first_nonempty.induct)
  case 1
  then show ?case by simp
next
  case (2 qs)
  then obtain p' where p': "first_nonempty qs = Some (p', t)" "p = Suc p'"
    by (auto split: prod.splits)
  from "2.IH" [OF p'(1)] p'(2) show ?case by (auto simp: nth_Cons split: nat.splits)
next
  case (3 t' q qs)
  then show ?case by simp
qed

text \<open>
  C9. In one pass the tasks are selected in the order of the queues laid end to end from
  priority 0 upwards: the list of selected tasks is a prefix of the concatenation of the
  queues, so within a queue the order is first in, first out, and no task of a queue is
  selected before every task of the queues of lower index. The tasks handed to
  \<open>execute_task\<close> are a prefix of the selected ones. Every queue after the pass is a suffix
  of the queue before it (tasks leave at the head only). The first task selected by a pass
  that has a free slot is the head of the non-empty queue of lowest index.
\<close>

theorem dispatch_order:
  "prefix (considered (snd (scheduler_loop_pass env s))) (concat (task_queues s))
   \<and> prefix (dispatched (snd (scheduler_loop_pass env s)))
        (considered (snd (scheduler_loop_pass env s)))
   \<and> (\<forall>i < length (task_queues s).
         suffix (task_queues (fst (scheduler_loop_pass env s)) ! i) (task_queues s ! i))
   \<and> (running s \<and> int (length (active_tasks s)) < max_concurrent s
        \<and> first_nonempty (task_queues s) = Some (p, t) \<longrightarrow>
         (\<forall>i < p. task_queues s ! i = []) \<and> hd (task_queues s ! p) = t
         \<and> (\<exists>evs. snd (scheduler_loop_pass env s) = Considered p t # evs))"
proof (cases "running s")
  case False
  then show ?thesis by (simp add: scheduler_loop_pass_def)
next
  case True
  have first: "\<exists>evs. snd (scheduler_admit env 0 s) = Considered p t # evs"
    if "int (length (active_tasks s)) < max_concurrent s"
      "first_nonempty (task_queues s) = Some (p, t)"
    using that
    by (subst scheduler_admit.simps) (simp split: reply.splits option.splits prod.splits)
  from scheduler_admit_order [where env = env and k = 0 and s = s, OF refl] True first
    first_nonempty_lowest [of "task_queues s" p t] first_nonempty_concat [of "task_queues s" p t]
  show ?thesis by (simp add: scheduler_loop_pass_def)
qed

theorem dispatch_order_witness:
  "running busy_manager \<and> int (length (active_tasks busy_manager)) < max_concurrent busy_manager
   \<and> first_nonempty (task_queues busy_manager) = Some (0, task_a)
   \<and> considered (snd (scheduler_loop_pass desktop_env busy_manager)) = [task_a, task_cam]
   \<and> prefix (considered (snd (scheduler_loop_pass desktop_env busy_manager)))
        [task_a, task_cam, task_b]
   \<and> hd (snd (scheduler_loop_pass desktop_env busy_manager)) = Considered 0 task_a"
proof -
  have h: "running busy_manager" "int (length (active_tasks busy_manager)) < max_concurrent busy_manager"
    "first_nonempty (task_queues busy_manager) = Some (0, task_a)"
    by (simp_all add: busy_manager_def TaskManager_init_def)
  have q: "concat (task_queues busy_manager) = [task_a, task_cam, task_b]"
    by (simp add: busy_manager_def)
  have ev: "considered (snd (scheduler_loop_pass desktop_env busy_manager)) = [task_a, task_cam]"
    by code_simp
  from dispatch_order [of desktop_env busy_manager 0 task_a] h
  have "prefix (considered (snd (scheduler_loop_pass desktop_env busy_manager)))
          (concat (task_queues busy_manager))"
    "\<exists>evs. snd (scheduler_loop_pass desktop_env busy_manager) = Considered 0 task_a # evs"
    by simp_all
  with h q ev show ?thesis by auto
qed








section \<open>Receiving\<close>

text \<open>
  C8. \<open>receive_data\<close> verifies the signature first. When the verification does not answer
  True (it answers False or raises) the result is False and nothing but the verification
  was called: no decryption, no handler. A decryption or a call of the handler occurs only
  in a run whose first call is a verification that answered True.
\<close>

theorem receive_data_verifies_first:
  "(data_signature d = None \<longrightarrow>
      receive_data hexdigest key now decrypt_data handler sender_id d = (False, []))
   \<and> (\<forall>sig. data_signature d = Some sig \<and> verify_token hexdigest key sig d now \<noteq> Inr True \<longrightarrow>
      receive_data hexdigest key now decrypt_data handler sender_id d = (False, [VerifyCall sig]))
   \<and> (\<forall>sig. data_signature d = Some sig \<longrightarrow>
        (\<exists>evs. snd (receive_data hexdigest key now decrypt_data handler sender_id d)
           = VerifyCall sig # evs))
   \<and> ((\<exists>c. DecryptCall c \<in> set (snd (receive_data hexdigest key now decrypt_data handler sender_id d)))
        \<or> (\<exists>a b. HandlerCall a b
              \<in> set (snd (receive_data hexdigest key now decrypt_data handler sender_id d)))
        \<or> fst (receive_data hexdigest key now decrypt_data handler sender_id d) \<longrightarrow>
        (\<exists>sig. data_signature d = Some sig \<and> verify_token hexdigest key sig d now = Inr True))"
  by (auto simp: receive_data_def split: option.splits sum.splits bool.splits)

theorem receive_data_verifies_first_witness:
  "data_signature envelope_t1 = Some ''00ff''
   \<and> verify_token example_hexdigest ''k'' ''00ff'' envelope_t1 ''1700000000.5'' = Inr False
   \<and> receive_data example_hexdigest ''k'' ''1700000000.5'' (Some (\<lambda>c. Some c)) (\<lambda>a b. Yes)
        ''D1'' envelope_t1
      = (False, [VerifyCall ''00ff''])
   \<and> receive_data example_hexdigest ''k'' ''1700000000.5'' None (\<lambda>a b. Yes) ''D1'' envelope_t1
      = (False, [VerifyCall ''00ff''])"
proof -
  have sig: "data_signature envelope_t1 = Some ''00ff''" by (simp add: envelope_t1_def)
  have v: "verify_token example_hexdigest ''k'' ''00ff'' envelope_t1 ''1700000000.5'' = Inr False"
    by code_simp
  from receive_data_verifies_first
    [of envelope_t1 example_hexdigest "''k''" "''1700000000.5''" "Some (\<lambda>c. Some c)" "\<lambda>a b. Yes" "''D1''"]
    sig v
  have a: "receive_data example_hexdigest ''k'' ''1700000000.5'' (Some (\<lambda>c. Some c)) (\<lambda>a b. Yes)
        ''D1'' envelope_t1 = (False, [VerifyCall ''00ff''])" by simp
  from receive_data_verifies_first
    [of envelope_t1 example_hexdigest "''k''" "''1700000000.5''" None "\<lambda>a b. Yes" "''D1''"]
    sig v
  have b: "receive_data example_hexdigest ''k'' ''1700000000.5'' None (\<lambda>a b. Yes) ''D1'' envelope_t1
      = (False, [VerifyCall ''00ff''])" by simp
  from sig v a b show ?thesis by simp
qed

text \<open>
  With the \<^verbatim>\<open>SecurityManager\<close> of utils/security.py, which has no attribute
  \<^verbatim>\<open>decrypt_data\<close>, \<open>receive_data\<close> never decrypts, never calls the handler and always
  answers False, also for a signature that verifies.
\<close>

lemma receive_data_without_decrypt_data:
  "fst (receive_data hexdigest key now None handler sender_id d) = False
   \<and> (\<forall>e \<in> set (snd (receive_data hexdigest key now None handler sender_id d)).
         \<exists>sig. e = VerifyCall sig)"
  by (auto simp: receive_data_def split: option.splits sum.splits bool.splits)

section \<open>Tokens\<close>

lemma compare_digest_same: "list_all is_ascii a \<Longrightarrow> compare_digest a a = Inr True"
  by (simp add: compare_digest_def)

lemma compare_digest_True: "compare_digest a b = Inr True \<Longrightarrow> a = b"
  by (simp add: compare_digest_def split: if_splits)

text \<open>
  C1, on the code. \<open>verify_token\<close> compares the token with a token generated from the
  reading of the clock at the verification. For a digest with ASCII output: a token is
  accepted when it is verified at the reading it was generated at; at any reading, a token
  other than the expected one is not accepted (the answer is False, or a TypeError for a
  token with a character outside ASCII); and a token generated at one reading and verified
  at a reading whose message has another digest is rejected, however soon the verification
  follows the signing.
\<close>

theorem verify_token_reading:
  assumes "list_all is_ascii (hexdigest key (token_message d now))"
  shows "verify_token hexdigest key (generate_token hexdigest key d now) d now = Inr True
    \<and> (\<forall>t'. t' \<noteq> generate_token hexdigest key d now \<longrightarrow>
          verify_token hexdigest key t' d now \<noteq> Inr True)
    \<and> (\<forall>later. list_all is_ascii (hexdigest key (token_message d later))
          \<and> hexdigest key (token_message d later) \<noteq> hexdigest key (token_message d now) \<longrightarrow>
          verify_token hexdigest key (generate_token hexdigest key d now) d later = Inr False)"
proof -
  have same: "verify_token hexdigest key (generate_token hexdigest key d now) d now = Inr True"
    using assms by (simp add: verify_token_def generate_token_def compare_digest_same)
  have other: "verify_token hexdigest key t' d now \<noteq> Inr True"
    if "t' \<noteq> generate_token hexdigest key d now" for t'
  proof
    assume "verify_token hexdigest key t' d now = Inr True"
    then have "t' = generate_token hexdigest key d now"
      unfolding verify_token_def by (rule compare_digest_True)
    with that show False by simp
  qed
  have stale: "verify_token hexdigest key (generate_token hexdigest key d now) d later = Inr False"
    if "list_all is_ascii (hexdigest key (token_message d later))"
      "hexdigest key (token_message d later) \<noteq> hexdigest key (token_message d now)" for later
    using that assms by (auto simp: verify_token_def generate_token_def compare_digest_def)
  from same other stale show ?thesis by blast
qed

theorem verify_token_reading_witness:
  "list_all is_ascii (example_hexdigest ''k'' (token_message envelope_t1 ''1700000000.0''))
   \<and> verify_token example_hexdigest ''k''
        (generate_token example_hexdigest ''k'' envelope_t1 ''1700000000.0'') envelope_t1
        ''1700000000.0'' = Inr True
   \<and> list_all is_ascii (example_hexdigest ''k'' (token_message envelope_t1 ''1700000000.5''))
   \<and> example_hexdigest ''k'' (token_message envelope_t1 ''1700000000.5'')
      \<noteq> example_hexdigest ''k'' (token_message envelope_t1 ''1700000000.0'')
   \<and> verify_token example_hexdigest ''k''
        (generate_token example_hexdigest ''k'' envelope_t1 ''1700000000.0'') envelope_t1
        ''1700000000.5'' = Inr False"
proof -
  have a0: "list_all is_ascii (example_hexdigest ''k'' (token_message envelope_t1 ''1700000000.0''))"
    by code_simp
  have a5: "list_all is_ascii (example_hexdigest ''k'' (token_message envelope_t1 ''1700000000.5''))"
    by code_simp
  have ne: "example_hexdigest ''k'' (token_message envelope_t1 ''1700000000.5'')
      \<noteq> example_hexdigest ''k'' (token_message envelope_t1 ''1700000000.0'')"
    by code_simp
  from verify_token_reading [of example_hexdigest "''k''" envelope_t1 "''1700000000.0''"] a5 ne a0
  show ?thesis by blast
qed

section \<open>Discovery\<close>

lemma process_protocol_devices_keys:
  "fst ` set (discovered_devices (process_protocol_devices cb clock protocol devices st))
     \<subseteq> fst ` set (discovered_devices st) \<union> fst ` set devices"
proof (induction devices arbitrary: st)
  case Nil
  then show ?case by simp
next
  case (Cons d devices)
  obtain i info where d: "d = (i, info)" by (cases d)
  let ?st' = "st\<lparr>clock_reads := Suc (clock_reads st),
      discovered_devices := AList.update i
        (info\<lparr>dev_protocol := Some protocol, dev_last_seen := Some (clock (clock_reads st))\<rparr>)
        (discovered_devices st),
      status_table :=
        (case map_of (status_table st) i of
           None \<Rightarrow> AList.update i ''new'' (status_table st)
         | Some v \<Rightarrow> if v = ''disconnected''
             then AList.update i ''reconnected'' (status_table st) else status_table st),
      notified := notified st @ [StatusChange i
        (case map_of (status_table st) i of None \<Rightarrow> ''new''
         | Some v \<Rightarrow> if v = ''disconnected'' then ''reconnected'' else v)]\<rparr>"
  have step: "fst ` set (discovered_devices ?st') \<subseteq> fst ` set (discovered_devices st) \<union> {i}"
    by (simp add: dom_update)
  have "process_protocol_devices cb clock protocol (d # devices) st = ?st'
      \<or> process_protocol_devices cb clock protocol (d # devices) st
          = process_protocol_devices cb clock protocol devices ?st'"
    by (simp add: d Let_def)
  then show ?case
  proof
    assume "process_protocol_devices cb clock protocol (d # devices) st = ?st'"
    with step d show ?thesis by auto
  next
    assume "process_protocol_devices cb clock protocol (d # devices) st
          = process_protocol_devices cb clock protocol devices ?st'"
    with Cons.IH [of ?st'] step d show ?thesis by auto
  qed
qed

lemma process_protocol_devices_status:
  assumes "device_id \<notin> fst ` set devices"
  shows "map_of (status_table (process_protocol_devices cb clock protocol devices st)) device_id
           = map_of (status_table st) device_id"
  using assms
proof (induction devices arbitrary: st)
  case Nil
  then show ?case by simp
next
  case (Cons d devices)
  obtain i info where d: "d = (i, info)" by (cases d)
  with Cons.prems have ne: "i \<noteq> device_id" and rest: "device_id \<notin> fst ` set devices" by auto
  show ?case using Cons.IH [OF rest] ne d
    by (auto simp: Let_def update_conv' split: option.splits)
qed

lemma discover_all_keys:
  "fst ` set (discovered_devices (discover_all cb clock handlers st))
     \<subseteq> fst ` set (discovered_devices st) \<union> reported_ids handlers"
proof (induction cb clock handlers st rule: discover_all.induct)
  case (1 cb clock st)
  then show ?case by simp
next
  case (2 cb clock protocol handlers st)
  then show ?case by (auto simp: reported_ids_def)
next
  case (3 cb clock protocol devices handlers st)
  have r: "reported_ids ((protocol, Some devices) # handlers) = fst ` set devices \<union> reported_ids handlers"
    by (simp add: reported_ids_def)
  from "3.IH" process_protocol_devices_keys [of cb clock protocol devices st]
  show ?case unfolding r by (simp del: process_protocol_devices.simps) blast
qed

lemma discover_all_status:
  assumes "device_id \<notin> reported_ids handlers"
  shows "map_of (status_table (discover_all cb clock handlers st)) device_id
           = map_of (status_table st) device_id"
  using assms
proof (induction cb clock handlers st rule: discover_all.induct)
  case (1 cb clock st)
  then show ?case by simp
next
  case (2 cb clock protocol handlers st)
  then show ?case by (simp add: reported_ids_def)
next
  case (3 cb clock protocol devices handlers st)
  from "3.prems" have a: "device_id \<notin> fst ` set devices" and b: "device_id \<notin> reported_ids handlers"
    by (auto simp: reported_ids_def)
  from process_protocol_devices_status [OF a, of cb clock protocol st] "3.IH" [OF b]
  show ?case by simp
qed

lemma sweep_disconnected_other:
  assumes "device_id \<notin> fst ` set devices"
  shows "map_of (fst (sweep_disconnected cb now interval devices (status, ns))) device_id
           = map_of status device_id"
  using assms
proof (induction devices arbitrary: status ns)
  case Nil
  then show ?case by simp
next
  case (Cons d devices)
  obtain i info where d: "d = (i, info)" by (cases d)
  with Cons.prems have ne: "i \<noteq> device_id" and rest: "device_id \<notin> fst ` set devices" by auto
  show ?case using Cons.IH [OF rest] ne d
    by (auto simp: update_conv' split: option.splits)
qed

text \<open>
  C7, on the code. Each cycle replaces the directory by the devices reported in that cycle,
  and the sweep for disconnected devices runs over the new directory only. So a device
  that no handler reports in a cycle has no record in the directory after the cycle, and
  its status is what it was before: it is not marked disconnected, however long ago it was
  last seen.
\<close>

theorem unreported_device_dropped:
  assumes "device_id \<notin> reported_ids handlers"
  shows "\<not> dict_has (available_devices (fst (discovery_cycle cb clock handlers layer))) device_id
    \<and> map_of (device_status (fst (discovery_cycle cb clock handlers layer))) device_id
        = map_of (device_status layer) device_id"
proof -
  let ?start = "\<lparr>clock_reads = 0, discovered_devices = [], status_table = device_status layer,
     notified = []\<rparr>"
  let ?st = "discover_all cb clock handlers ?start"
  from discover_all_keys [where st = ?start and cb = cb and clock = clock and handlers = handlers]
  have keys: "fst ` set (discovered_devices ?st) \<subseteq> reported_ids handlers" by simp
  from discover_all_status [OF assms, where st = ?start and cb = cb and clock = clock]
  have status: "map_of (status_table ?st) device_id = map_of (device_status layer) device_id"
    by simp
  from keys assms have absent: "device_id \<notin> fst ` set (discovered_devices ?st)" by blast
  from sweep_disconnected_other [OF absent] status absent show ?thesis
    by (simp add: discovery_cycle_def Let_def dict_has_def)
qed

theorem unreported_device_dropped_witness:
  "''D1'' \<notin> reported_ids [(''wifi'', Some [])]
   \<and> dict_has (available_devices layer_with_D1) ''D1''
   \<and> \<not> dict_has (available_devices
         (fst (discovery_cycle (\<lambda>i st. True) (\<lambda>k. 1000) [(''wifi'', Some [])] layer_with_D1))) ''D1''
   \<and> map_of (device_status
         (fst (discovery_cycle (\<lambda>i st. True) (\<lambda>k. 1000) [(''wifi'', Some [])] layer_with_D1))) ''D1''
      = Some ''new''"
proof -
  have absent: "''D1'' \<notin> reported_ids [(''wifi'', Some [])]"
    by (simp add: reported_ids_def)
  have before: "dict_has (available_devices layer_with_D1) ''D1''"
    "map_of (device_status layer_with_D1) ''D1'' = Some ''new''"
    by (simp_all add: layer_with_D1_def dict_has_def)
  from unreported_device_dropped [OF absent, of "\<lambda>i st. True" "\<lambda>k. 1000" layer_with_D1]
    absent before
  show ?thesis by simp
qed

text \<open>
  The failing input of C7 evaluated: \<open>D1\<close> was seen at time 0 and the interval is 30; in
  a cycle at time 1000 no handler reports it. After the cycle the directory is empty and
  the status of \<open>D1\<close> is still \<open>new\<close>; when \<open>D1\<close> is reported again in a cycle at time
  2000 its status stays \<open>new\<close> and no change to \<open>reconnected\<close> is notified.
\<close>

lemma stale_device_evaluated:
  "discovery_cycle (\<lambda>i st. True) (\<lambda>k. 1000) [(''wifi'', Some [])] layer_with_D1
     = (layer_with_D1\<lparr>available_devices := []\<rparr>, [])
   \<and> device_status (fst (discovery_cycle (\<lambda>i st. True) (\<lambda>k. 2000)
        [(''wifi'', Some [(''D1'', peer [(''camera'', PBool True)])])]
        (fst (discovery_cycle (\<lambda>i st. True) (\<lambda>k. 1000) [(''wifi'', Some [])] layer_with_D1))))
     = [(''D1'', ''new'')]
   \<and> snd (discovery_cycle (\<lambda>i st. True) (\<lambda>k. 2000)
        [(''wifi'', Some [(''D1'', peer [(''camera'', PBool True)])])]
        (fst (discovery_cycle (\<lambda>i st. True) (\<lambda>k. 1000) [(''wifi'', Some [])] layer_with_D1)))
     = [StatusChange ''D1'' ''new'']"
  by code_simp

end
